theory Spec2Isabelle
  imports Main "HOL-Library.Word"
begin

section \<open>JavaScript strings\<close>

text \<open>
  A JavaScript string is a sequence of 16-bit code units. The regular expression of the
  validator has no \<open>u\<close> flag, so it works on code units, and \<open>m.index\<close>,
  \<open>m[0].length\<close> count code units. \<open>js\<close> embeds a literal.
\<close>

type_synonym code_unit = "16 word"
type_synonym js_string = "code_unit list"

definition js :: "string \<Rightarrow> js_string" where
  "js s = map of_char s"

definition endsWith :: "js_string \<Rightarrow> js_string \<Rightarrow> bool" where
  \<comment> \<open>\<open>String.prototype.endsWith\<close>\<close>
  "endsWith s searchString =
     (length searchString \<le> length s \<and> drop (length s - length searchString) s = searchString)"

section \<open>The regular expression engine, for the fragment the server uses\<close>

text \<open>
  \<open>server.ts\<close> line 145: \<open>const pattern = /\b[A-Z]{2,}\b/g\<close>. The pattern is a
  sequence of a word-boundary assertion, a character class under the greedy quantifier
  \<open>{2,}\<close>, and a second word-boundary assertion. The engine is ECMAScript's backtracking
  matcher, written as a list of successes: \<open>rmatch r input x\<close> lists the end indices of
  the matches of \<open>r\<close> that start at \<open>x\<close>, in the order in which backtracking tries them.
  A greedy quantifier tries the longest repetition first.
\<close>

type_synonym class_ranges = "(code_unit \<times> code_unit) list"

datatype regex =
    WordBoundary
  | AtLeast nat class_ranges
  | Seq regex regex

definition in_ranges :: "class_ranges \<Rightarrow> code_unit \<Rightarrow> bool" where
  "in_ranges rs c = list_ex (\<lambda>r. fst r \<le> c \<and> c \<le> snd r) rs"

definition WordCharacters :: class_ranges where
  \<comment> \<open>the basic word characters: \<open>a-z\<close>, \<open>A-Z\<close>, \<open>0-9\<close>, \<open>_\<close>\<close>
  "WordCharacters = [(0x61, 0x7A), (0x41, 0x5A), (0x30, 0x39), (0x5F, 0x5F)]"

definition IsWordChar :: "js_string \<Rightarrow> int \<Rightarrow> bool" where
  \<comment> \<open>ECMAScript's IsWordChar(e): false at \<open>-1\<close> and at the input's length\<close>
  "IsWordChar input e =
     (if e = - 1 \<or> e = int (length input) then False
      else in_ranges WordCharacters (input ! nat e))"

definition IsWordBoundary :: "js_string \<Rightarrow> nat \<Rightarrow> bool" where
  \<comment> \<open>the assertion \<open>\b\<close> at end index \<open>e\<close>\<close>
  "IsWordBoundary input e =
     (let a = IsWordChar input (int e - 1); b = IsWordChar input (int e)
      in (a \<and> \<not> b) \<or> (\<not> a \<and> b))"

fun rmatch :: "regex \<Rightarrow> js_string \<Rightarrow> nat \<Rightarrow> nat list" where
  "rmatch WordBoundary input x = (if IsWordBoundary input x then [x] else [])"
| "rmatch (AtLeast n rs) input x =
     (let k = length (takeWhile (in_ranges rs) (drop x input))
      in map (\<lambda>m. x + m) (rev [n..<Suc k]))"
| "rmatch (Seq r1 r2) input x = concat (map (rmatch r2 input) (rmatch r1 input x))"

definition pattern :: regex where
  "pattern = Seq WordBoundary (Seq (AtLeast 2 [(0x41, 0x5A)]) WordBoundary)"

text \<open>
  \<open>RegExp.prototype.exec\<close> of a global expression: the search starts at \<open>lastIndex\<close> and
  tries every start index up to the input's length. A match sets \<open>lastIndex\<close> to its end;
  a failure resets \<open>lastIndex\<close> to 0 and returns \<open>null\<close>.
\<close>

function search :: "regex \<Rightarrow> js_string \<Rightarrow> nat \<Rightarrow> (nat \<times> nat) option" where
  "search r input i =
     (if length input < i then None
      else case rmatch r input i of
             e # _ \<Rightarrow> Some (i, e)
           | [] \<Rightarrow> search r input (Suc i))"
  by pat_completeness auto
termination
  by (relation "measure (\<lambda>(r, input, i). Suc (length input) - i)") auto

record RegExpExecArray =
  index :: nat
  match0 :: js_string

definition exec :: "regex \<Rightarrow> nat \<Rightarrow> js_string \<Rightarrow> RegExpExecArray option \<times> nat" where
  "exec r lastIndex input =
     (case search r input lastIndex of
        None \<Rightarrow> (None, 0)
      | Some (i, e) \<Rightarrow> (Some \<lparr>index = i, match0 = take (e - i) (drop i input)\<rparr>, e))"

section \<open>Protocol data\<close>

datatype DiagnosticSeverity = Error | Warning | Information | Hint

record Position =
  line :: nat
  character :: nat

record Range =
  start :: Position
  end' :: Position

record Location =
  loc_uri :: js_string
  loc_range :: Range

record DiagnosticRelatedInformation =
  rel_location :: Location
  rel_message :: js_string

record Diagnostic =
  severity :: DiagnosticSeverity
  drange :: Range
  message :: js_string
  source :: js_string
  relatedInformation :: "DiagnosticRelatedInformation list option"

record PublishDiagnosticsParams =
  pub_uri :: js_string
  diagnostics :: "Diagnostic list"

text \<open>
  The server's \<open>TextDocument\<close> comes from the library
  \<open>vscode-languageserver-textdocument\<close>; the validator uses its \<open>uri\<close>, \<open>getText()\<close> and
  \<open>positionAt(offset)\<close>. The library is not part of the repository, so \<open>positionAt\<close> is a
  field of the document.
\<close>

record TextDocument =
  uri :: js_string
  getText :: js_string
  positionAt :: "nat \<Rightarrow> Position"

datatype error = TypeError

section \<open>Server state and settings (\<open>server.ts\<close>)\<close>

record ExampleSettings =
  maxNumberOfProblems :: int

definition defaultSettings :: ExampleSettings where
  "defaultSettings = \<lparr>maxNumberOfProblems = 1000\<rparr>"

text \<open>
  The module's variables. \<open>documentSettings\<close> caches, per document URI, the reply to the
  \<open>workspace/configuration\<close> request; a reply may be \<open>null\<close> (\<open>None\<close>), which the
  protocol sends when the client has no value for the section.
\<close>

record server_state =
  hasConfigurationCapability :: bool
  hasWorkspaceFolderCapability :: bool
  hasDiagnosticRelatedInformationCapability :: bool
  globalSettings :: ExampleSettings
  documentSettings :: "js_string \<rightharpoonup> ExampleSettings option"

definition initial_state :: server_state where
  "initial_state =
     \<lparr>hasConfigurationCapability = False,
      hasWorkspaceFolderCapability = False,
      hasDiagnosticRelatedInformationCapability = False,
      globalSettings = defaultSettings,
      documentSettings = Map.empty\<rparr>"

definition getDocumentSettings ::
  "(js_string \<Rightarrow> ExampleSettings option) \<Rightarrow> server_state \<Rightarrow> js_string
     \<Rightarrow> ExampleSettings option \<times> server_state" where
  \<comment> \<open>\<open>getConfiguration\<close> is the client's reply to \<open>connection.workspace.getConfiguration\<close>\<close>
  "getDocumentSettings getConfiguration s resource =
     (if \<not> hasConfigurationCapability s then (Some (globalSettings s), s)
      else case documentSettings s resource of
             Some result \<Rightarrow> (result, s)
           | None \<Rightarrow>
               (let result = getConfiguration resource
                in (result, s\<lparr>documentSettings := (documentSettings s)(resource \<mapsto> result)\<rparr>)))"

section \<open>The validator (\<open>validateTaclDocument\<close>, \<open>server.ts\<close> lines 139 to 190)\<close>

definition make_diagnostic :: "TextDocument \<Rightarrow> bool \<Rightarrow> RegExpExecArray \<Rightarrow> Diagnostic" where
  \<comment> \<open>the body of the loop, lines 152 to 178; the flag is
      \<open>hasDiagnosticRelatedInformationCapability\<close>\<close>
  "make_diagnostic textDocument related m =
     (let diagnostic =
            \<lparr>severity = Warning,
             drange = \<lparr>start = positionAt textDocument (index m),
                       end' = positionAt textDocument (index m + length (match0 m))\<rparr>,
             message = match0 m @ js '' is all uppercase. Can you please fix that'',
             source = js ''ex'',
             relatedInformation = None\<rparr>
      in if related
         then diagnostic\<lparr>relatedInformation := Some
                [\<lparr>rel_location = \<lparr>loc_uri = uri textDocument, loc_range = drange diagnostic\<rparr>,
                  rel_message = js ''Spelling matters''\<rparr>,
                 \<lparr>rel_location = \<lparr>loc_uri = uri textDocument, loc_range = drange diagnostic\<rparr>,
                  rel_message = js ''Particularly for names''\<rparr>]\<rparr>
         else diagnostic)"

text \<open>
  The loop \<open>while ((m = pattern.exec(text)) && problems < settings.maxNumberOfProblems)\<close>.
  \<open>exec\<close> runs first; \<open>settings.maxNumberOfProblems\<close> is read only after a match was
  found, and reading it from \<open>null\<close> throws a TypeError.
\<close>

function validate_loop ::
  "TextDocument \<Rightarrow> ExampleSettings option \<Rightarrow> bool \<Rightarrow> nat \<Rightarrow> int \<Rightarrow> Diagnostic list
     \<Rightarrow> error + Diagnostic list" where
  "validate_loop textDocument settings related lastIndex problems ds =
     (case exec pattern lastIndex (getText textDocument) of
        (None, _) \<Rightarrow> Inr ds
      | (Some m, lastIndex') \<Rightarrow>
          (case settings of
             None \<Rightarrow> Inl TypeError
           | Some st \<Rightarrow>
               if problems < maxNumberOfProblems st
               then validate_loop textDocument settings related lastIndex' (problems + 1)
                      (ds @ [make_diagnostic textDocument related m])
               else Inr ds))"
  by pat_completeness auto
termination
  by (relation "measure (\<lambda>(textDocument, settings, related, lastIndex, problems, ds).
        case settings of None \<Rightarrow> 0 | Some st \<Rightarrow> nat (maxNumberOfProblems st - problems))") auto

definition validateTaclDocument ::
  "(js_string \<Rightarrow> ExampleSettings option) \<Rightarrow> server_state \<Rightarrow> TextDocument
     \<Rightarrow> (error + PublishDiagnosticsParams) \<times> server_state" where
  \<comment> \<open>the result is the argument of \<open>connection.sendDiagnostics\<close>, or the error thrown\<close>
  "validateTaclDocument getConfiguration s textDocument =
     (case getDocumentSettings getConfiguration s (uri textDocument) of
        (settings, s') \<Rightarrow>
          (case validate_loop textDocument settings
                  (hasDiagnosticRelatedInformationCapability s') 0 0 [] of
             Inl e \<Rightarrow> (Inl e, s')
           | Inr ds \<Rightarrow> (Inr \<lparr>pub_uri = uri textDocument, diagnostics = ds\<rparr>, s')))"

text \<open>
  \<open>connection.onDidChangeConfiguration\<close>, lines 99 to 111. \<open>change.settings\<close> may be
  \<open>null\<close>, and so may its member \<open>languageServerExample\<close>. The open documents are then
  validated again, each from the state the one before left.
\<close>

record ChangeSettings =
  languageServerExample :: "ExampleSettings option"

record DidChangeConfigurationParams =
  change_settings :: "ChangeSettings option"

fun validate_all ::
  "(js_string \<Rightarrow> ExampleSettings option) \<Rightarrow> server_state \<Rightarrow> TextDocument list
     \<Rightarrow> (error + PublishDiagnosticsParams) list \<times> server_state" where
  "validate_all getConfiguration s [] = ([], s)"
| "validate_all getConfiguration s (d # docs) =
     (case validateTaclDocument getConfiguration s d of
        (r, s') \<Rightarrow>
          (case validate_all getConfiguration s' docs of
             (rs, s'') \<Rightarrow> (r # rs, s'')))"

definition onDidChangeConfiguration ::
  "(js_string \<Rightarrow> ExampleSettings option) \<Rightarrow> server_state \<Rightarrow> DidChangeConfigurationParams
     \<Rightarrow> TextDocument list
     \<Rightarrow> error + ((error + PublishDiagnosticsParams) list \<times> server_state)" where
  "onDidChangeConfiguration getConfiguration s change documents =
     (if hasConfigurationCapability s
      then Inr (validate_all getConfiguration (s\<lparr>documentSettings := Map.empty\<rparr>) documents)
      else case change_settings change of
             None \<Rightarrow> Inl TypeError
           | Some cs \<Rightarrow>
               Inr (validate_all getConfiguration
                      (s\<lparr>globalSettings :=
                           (case languageServerExample cs of
                              Some v \<Rightarrow> v
                            | None \<Rightarrow> defaultSettings)\<rparr>)
                      documents))"

section \<open>Completion (\<open>server.ts\<close> lines 252 to 418)\<close>

datatype CompletionItemKind = Function | Variable | Class | Property

record CompletionItem =
  label :: js_string
  kind :: CompletionItemKind
  data :: int
  detail :: "js_string option"
  documentation :: "js_string option"

record TextDocumentPositionParams =
  textDocument_uri :: js_string
  position :: Position

definition item :: "js_string \<Rightarrow> CompletionItemKind \<Rightarrow> int \<Rightarrow> CompletionItem" where
  \<comment> \<open>an object literal \<open>{label, kind, data}\<close>: the other two fields are not set\<close>
  "item l k d = \<lparr>label = l, kind = k, data = d, detail = None, documentation = None\<rparr>"

definition onCompletion :: "TextDocumentPositionParams \<Rightarrow> CompletionItem list" where
  \<comment> \<open>the source names the argument \<open>_textDocumentPosition\<close> and does not read it\<close>
  "onCompletion textDocumentPosition =
     [item (js ''Given'') Property 1,
      item (js ''actions'') Property 2,
      item (js ''Then'') Property 3,
      item (js ''And'') Property 4,
      item (js ''do'') Function 5,
      item (js ''click'') Class 6,
      item (js ''type'') Function 7,
      item (js ''check'') Function 8,
      item (js ''uncheck'') Function 9,
      item (js ''fill'') Function 10,
      item (js ''assert'') Property 11,
      item (js ''press'') Function 12,
      item (js ''double_click'') Function 13,
      item (js ''name'') Variable 14,
      item (js ''value'') Variable 15,
      item (js ''description'') Variable 16,
      item (js ''scenarios'') Variable 17,
      item (js ''steps'') Variable 18,
      item (js ''focus'') Function 19,
      item (js ''enabled'') Variable 20,
      item (js ''empty'') Variable 21,
      item (js ''editable'') Variable 22,
      item (js ''hidden'') Variable 23,
      item (js ''visible'') Variable 24,
      item (js ''available'') Variable 25,
      item (js ''empty'') Variable 26,
      item (js ''contains'') Variable 27,
      item (js ''title'') Variable 28,
      item (js ''checked'') Function 29]"

text \<open>
  \<open>keyword.json\<close> is not among the sources; the table is a parameter, an array of
  \<open>{label, detail, documentation}\<close>. Reading a JavaScript array outside its indices gives
  \<open>undefined\<close> (\<open>None\<close>), and reading a member of \<open>undefined\<close> throws a TypeError.
\<close>

record KeywordEntry =
  kw_label :: js_string
  kw_detail :: js_string
  kw_documentation :: js_string

definition array_get :: "'a list \<Rightarrow> int \<Rightarrow> 'a option" where
  "array_get xs i = (if 0 \<le> i \<and> i < int (length xs) then Some (xs ! nat i) else None)"

definition onCompletionResolve :: "KeywordEntry list \<Rightarrow> CompletionItem \<Rightarrow> error + CompletionItem" where
  "onCompletionResolve keywordDes it =
     (let count = data it - 1
      in case array_get keywordDes count of
           None \<Rightarrow> Inl TypeError
         | Some temp \<Rightarrow>
             Inr (it\<lparr>detail := Some (kw_detail temp),
                     documentation := Some (kw_documentation temp)\<rparr>))"

section \<open>Hover (\<open>extension.ts\<close> lines 58 to 86)\<close>

text \<open>
  \<open>hover.json\<close> is not among the sources; the table is a parameter, an array of
  \<open>{label, documentation}\<close>. The editor's document gives \<open>uri.fsPath\<close>,
  \<open>getWordRangeAtPosition\<close> (which may return \<open>undefined\<close>) and \<open>getText(range)\<close>;
  \<open>path.dirname\<close> is Node's. The result comes with the lines written by \<open>console.log\<close>.
\<close>

record HoverEntry =
  hv_label :: js_string
  hv_documentation :: js_string

record vscode_TextDocument =
  fsPath :: js_string
  getWordRangeAtPosition :: "Position \<Rightarrow> Range option"
  getTextIn :: "Range option \<Rightarrow> js_string"

record Hover =
  contents :: "js_string list"

definition location_log :: "js_string \<Rightarrow> js_string list" where
  "location_log location =
     (if endsWith location (js ''features'') then [js ''Its a feature file'']
      else if endsWith location (js ''steps'') then [js ''Its a step file'']
      else if endsWith location (js ''elements'') then [js ''Its an elements file'']
      else if endsWith location (js ''data'') then [js ''Its a dataset file'']
      else [])"

definition scan_table :: "HoverEntry list \<Rightarrow> js_string \<Rightarrow> js_string \<Rightarrow> js_string" where
  \<comment> \<open>\<open>hoverDes.forEach\<close>, lines 76 to 80, from the current \<open>return_content\<close>\<close>
  "scan_table hoverDes word return_content =
     fold (\<lambda>element rc. if hv_label element = word then hv_documentation element else rc)
       hoverDes return_content"

definition provideHover ::
  "(js_string \<Rightarrow> js_string) \<Rightarrow> HoverEntry list \<Rightarrow> vscode_TextDocument \<Rightarrow> Position
     \<Rightarrow> Hover \<times> js_string list" where
  "provideHover dirname hoverDes document pos =
     (let location = dirname (fsPath document);
          logged = location_log location;
          word = getTextIn document (getWordRangeAtPosition document pos);
          return_content = scan_table hoverDes word (js [])
      in (\<lparr>contents = [return_content]\<rparr>, logged))"

section \<open>The validator in the words of the specification\<close>

text \<open>
  A flagged run of a text is a maximal run of two or more uppercase letters \<open>A\<close> to \<open>Z\<close>
  with a word boundary on each side: it occupies the indices \<open>i\<close> up to \<open>j\<close>, exclusive.
  \<open>uppercase_runs\<close> lists the flagged runs from left to right.
\<close>

definition uppercase_letter :: "code_unit \<Rightarrow> bool" where
  "uppercase_letter c = (0x41 \<le> c \<and> c \<le> 0x5A)"

definition flagged_run :: "js_string \<Rightarrow> nat \<Rightarrow> nat \<Rightarrow> bool" where
  "flagged_run text i j =
     (i + 2 \<le> j \<and> j \<le> length text
      \<and> list_all uppercase_letter (take (j - i) (drop i text))
      \<and> \<not> (0 < i \<and> uppercase_letter (text ! (i - 1)))
      \<and> \<not> (j < length text \<and> uppercase_letter (text ! j))
      \<and> IsWordBoundary text i \<and> IsWordBoundary text j)"

definition uppercase_runs :: "js_string \<Rightarrow> (nat \<times> nat) list" where
  "uppercase_runs text =
     concat (map (\<lambda>i. map (Pair i) (filter (flagged_run text i) [i..<Suc (length text)]))
               [0..<length text])"

definition expected_diagnostic :: "TextDocument \<Rightarrow> bool \<Rightarrow> nat \<times> nat \<Rightarrow> Diagnostic" where
  \<comment> \<open>the diagnostic the specification asks for the run from \<open>i\<close> to \<open>j\<close>\<close>
  "expected_diagnostic textDocument related run =
     (let i = fst run; j = snd run;
          r = \<lparr>start = positionAt textDocument i, end' = positionAt textDocument j\<rparr>;
          token = take (j - i) (drop i (getText textDocument))
      in \<lparr>severity = Warning,
          drange = r,
          message = token @ js '' is all uppercase. Can you please fix that'',
          source = js ''ex'',
          relatedInformation =
            (if related
             then Some [\<lparr>rel_location = \<lparr>loc_uri = uri textDocument, loc_range = r\<rparr>,
                         rel_message = js ''Spelling matters''\<rparr>,
                        \<lparr>rel_location = \<lparr>loc_uri = uri textDocument, loc_range = r\<rparr>,
                         rel_message = js ''Particularly for names''\<rparr>]
             else None)\<rparr>)"

text \<open>
  The flagged runs that start at index \<open>i\<close> or later; \<open>uppercase_runs\<close> is the case
  \<open>i = 0\<close>.
\<close>

definition runs_from :: "js_string \<Rightarrow> nat \<Rightarrow> (nat \<times> nat) list" where
  "runs_from text i =
     concat (map (\<lambda>x. map (Pair x) (filter (flagged_run text x) [x..<Suc (length text)]))
               [i..<length text])"

section \<open>The regular expression matches exactly the flagged runs\<close>

declare search.simps [simp del] validate_loop.simps [simp del]

lemma in_ranges_AZ: "in_ranges [(0x41, 0x5A)] = uppercase_letter"
  by (rule ext) (simp add: in_ranges_def uppercase_letter_def)

lemma uppercase_is_word: "uppercase_letter c \<Longrightarrow> in_ranges WordCharacters c"
  by (simp add: uppercase_letter_def in_ranges_def WordCharacters_def)

lemma IsWordChar_nth:
  "e < length input \<Longrightarrow> IsWordChar input (int e) = in_ranges WordCharacters (input ! e)"
  by (simp add: IsWordChar_def)

lemma IsWordChar_pred:
  "0 < e \<Longrightarrow> e \<le> length input \<Longrightarrow>
   IsWordChar input (int e - 1) = in_ranges WordCharacters (input ! (e - 1))"
proof -
  assume a: "0 < e" "e \<le> length input"
  then have "int e - 1 = int (e - 1)" by simp
  moreover have "e - 1 < length input" using a by simp
  ultimately show ?thesis by (simp only: IsWordChar_nth)
qed

lemma run_nth:
  "m < length (takeWhile P (drop x text)) \<Longrightarrow> x + m < length text \<and> P (text ! (x + m))"
proof -
  assume m: "m < length (takeWhile P (drop x text))"
  have "length (takeWhile P (drop x text)) \<le> length (drop x text)"
    by (rule length_takeWhile_le)
  with m have lt: "x + m < length text" by simp
  have "takeWhile P (drop x text) ! m \<in> set (takeWhile P (drop x text))"
    using m by simp
  then have "P (takeWhile P (drop x text) ! m)" by (rule set_takeWhileD[THEN conjunct2])
  moreover have "takeWhile P (drop x text) ! m = drop x text ! m"
    using m by (rule takeWhile_nth)
  ultimately show ?thesis using lt by simp
qed

lemma no_boundary_inside:
  assumes "0 < m" "m < length (takeWhile uppercase_letter (drop x text))"
  shows "\<not> IsWordBoundary text (x + m)"
proof -
  from assms have a: "x + m < length text \<and> uppercase_letter (text ! (x + m))"
    using run_nth by blast
  from assms have "m - 1 < length (takeWhile uppercase_letter (drop x text))" by simp
  then have "uppercase_letter (text ! (x + (m - 1)))" using run_nth by blast
  moreover have "x + (m - 1) = x + m - 1" using assms by simp
  ultimately have b: "uppercase_letter (text ! (x + m - 1))" by simp
  have "IsWordChar text (int (x + m))"
    using a IsWordChar_nth[of "x + m" "text"] uppercase_is_word by blast
  moreover have "IsWordChar text (int (x + m) - 1)"
    using a b assms IsWordChar_pred[of "x + m" "text"] uppercase_is_word by simp
  ultimately show ?thesis by (simp add: IsWordBoundary_def)
qed

lemma boundary_filter:
  "concat (map (\<lambda>e. if IsWordBoundary text e then [e] else [])
     (map (\<lambda>m. x + m) (rev [2..<Suc (length (takeWhile uppercase_letter (drop x text)))])))
   = (if 2 \<le> length (takeWhile uppercase_letter (drop x text))
         \<and> IsWordBoundary text (x + length (takeWhile uppercase_letter (drop x text)))
      then [x + length (takeWhile uppercase_letter (drop x text))] else [])"
proof (cases "2 \<le> length (takeWhile uppercase_letter (drop x text))")
  case False
  then show ?thesis by simp
next
  case True
  let ?k = "length (takeWhile uppercase_letter (drop x text))"
  let ?f = "\<lambda>e. if IsWordBoundary text e then [e] else []"
  let ?g = "\<lambda>m. x + m"
  have inner: "concat (map ?f (map ?g (rev [2 ..< ?k]))) = []"
    using no_boundary_inside[of _ x "text"] by auto
  from True have "[2 ..< Suc ?k] = [2 ..< ?k] @ [?k]" by simp
  then have "concat (map ?f (map ?g (rev [2 ..< Suc ?k])))
      = ?f (?g ?k) @ concat (map ?f (map ?g (rev [2 ..< ?k])))"
    by simp
  with inner True show ?thesis by simp
qed

lemma rmatch_pattern:
  "rmatch pattern text x =
     (if IsWordBoundary text x \<and> 2 \<le> length (takeWhile uppercase_letter (drop x text))
         \<and> IsWordBoundary text (x + length (takeWhile uppercase_letter (drop x text)))
      then [x + length (takeWhile uppercase_letter (drop x text))] else [])"
proof (cases "IsWordBoundary text x")
  case True
  then have "rmatch pattern text x = rmatch (Seq (AtLeast 2 [(0x41, 0x5A)]) WordBoundary) text x"
    by (simp add: pattern_def del: rmatch.simps(2))
  also have "\<dots> = concat (map (\<lambda>e. if IsWordBoundary text e then [e] else [])
     (map (\<lambda>m. x + m) (rev [2..<Suc (length (takeWhile uppercase_letter (drop x text)))])))"
    by (simp add: in_ranges_AZ Let_def comp_def)
  also have "\<dots> = (if 2 \<le> length (takeWhile uppercase_letter (drop x text))
         \<and> IsWordBoundary text (x + length (takeWhile uppercase_letter (drop x text)))
      then [x + length (takeWhile uppercase_letter (drop x text))] else [])"
    by (rule boundary_filter)
  finally show ?thesis using True by simp
next
  case False
  then show ?thesis by (simp add: pattern_def)
qed

lemma takeWhile_length_unique:
  assumes "m \<le> length xs" "list_all P (take m xs)" "\<not> (m < length xs \<and> P (xs ! m))"
  shows "length (takeWhile P xs) = m"
proof -
  have "takeWhile P (drop m xs) = []"
  proof (cases "m < length xs")
    case True
    then have "drop m xs = xs ! m # drop (Suc m) xs" by (simp add: Cons_nth_drop_Suc)
    with True assms(3) show ?thesis by simp
  next
    case False
    then show ?thesis by simp
  qed
  moreover have "takeWhile P (take m xs @ drop m xs) = take m xs @ takeWhile P (drop m xs)"
    using assms(2) by (intro takeWhile_append2) (simp add: list_all_iff)
  ultimately have "takeWhile P xs = take m xs" by simp
  then show ?thesis using assms(1) by simp
qed

lemma flagged_run_iff:
  "flagged_run text x j \<longleftrightarrow>
     (j = x + length (takeWhile uppercase_letter (drop x text))
      \<and> IsWordBoundary text x \<and> 2 \<le> length (takeWhile uppercase_letter (drop x text))
      \<and> IsWordBoundary text j)"
  (is "?L \<longleftrightarrow> ?R")
proof
  assume L: ?L
  then have a: "x + 2 \<le> j" "j \<le> length text"
    "list_all uppercase_letter (take (j - x) (drop x text))"
    "\<not> (j < length text \<and> uppercase_letter (text ! j))"
    "IsWordBoundary text x" "IsWordBoundary text j"
    by (simp_all add: flagged_run_def)
  have "length (takeWhile uppercase_letter (drop x text)) = j - x"
  proof (rule takeWhile_length_unique)
    show "j - x \<le> length (drop x text)" using a by simp
    show "list_all uppercase_letter (take (j - x) (drop x text))" by (rule a(3))
    show "\<not> (j - x < length (drop x text) \<and> uppercase_letter (drop x text ! (j - x)))"
      using a by auto
  qed
  with a show ?R by simp
next
  assume R: ?R
  let ?k = "length (takeWhile uppercase_letter (drop x text))"
  from R have j: "j = x + ?k" and k: "2 \<le> ?k" and bx: "IsWordBoundary text x"
    and bj: "IsWordBoundary text j" by blast+
  have le: "?k \<le> length (drop x text)" by (rule length_takeWhile_le)
  with k have jle: "j \<le> length text" and xlt: "x < length text" using j by simp_all
  have all: "list_all uppercase_letter (take (j - x) (drop x text))"
  proof -
    have "take ?k (drop x text) = takeWhile uppercase_letter (drop x text)"
      by (rule takeWhile_eq_take[symmetric])
    moreover have "list_all uppercase_letter (takeWhile uppercase_letter (drop x text))"
      by (auto simp: list_all_iff dest: set_takeWhileD)
    ultimately show ?thesis using j by simp
  qed
  have first: "uppercase_letter (text ! x)"
  proof -
    from k have "0 < ?k" by linarith
    then have "x + 0 < length text \<and> uppercase_letter (text ! (x + 0))" by (rule run_nth)
    then show ?thesis by simp
  qed
  have left: "\<not> (0 < x \<and> uppercase_letter (text ! (x - 1)))"
  proof
    assume c: "0 < x \<and> uppercase_letter (text ! (x - 1))"
    then have "IsWordChar text (int x - 1)"
      using IsWordChar_pred[of x "text"] xlt uppercase_is_word by simp
    moreover have "IsWordChar text (int x)"
      using IsWordChar_nth[of x "text"] xlt first uppercase_is_word by blast
    ultimately show False using bx by (simp add: IsWordBoundary_def)
  qed
  have right: "\<not> (j < length text \<and> uppercase_letter (text ! j))"
  proof
    assume c: "j < length text \<and> uppercase_letter (text ! j)"
    then have "x + ?k < length text" using j by simp
    then have lt: "?k < length (drop x text)" by (simp add: less_diff_conv add.commute)
    then have "\<not> uppercase_letter (drop x text ! ?k)" by (rule nth_length_takeWhile)
    moreover have "drop x text ! ?k = text ! (x + ?k)" using xlt by simp
    ultimately show False using c j by simp
  qed
  show ?L
    unfolding flagged_run_def using j k jle all left right bx bj by simp
qed


lemma filter_eq_upt: "a \<le> b \<Longrightarrow> b < c \<Longrightarrow> filter (\<lambda>j. j = b) [a..<c] = [b]"
proof (induction c)
  case 0
  then show ?case by simp
next
  case (Suc c)
  show ?case
  proof (cases "b = c")
    case True
    then have "filter (\<lambda>j. j = b) [a..<c] = []" by (auto simp: filter_empty_conv)
    with True Suc.prems show ?thesis by simp
  next
    case False
    with Suc show ?thesis by simp
  qed
qed

lemma run_bound:
  assumes "0 < length (takeWhile P (drop x text))"
  shows "x + length (takeWhile P (drop x text)) \<le> length text" and "x < length text"
proof -
  have "length (takeWhile P (drop x text)) \<le> length (drop x text)"
    by (rule length_takeWhile_le)
  then have a: "length (takeWhile P (drop x text)) \<le> length text - x" by simp
  with assms show "x + length (takeWhile P (drop x text)) \<le> length text" by linarith
  from a assms show "x < length text" by linarith
qed

lemma filter_flagged_run:
  "filter (flagged_run text x) [x..<Suc (length text)] = rmatch pattern text x"
proof (cases "IsWordBoundary text x \<and> 2 \<le> length (takeWhile uppercase_letter (drop x text))
         \<and> IsWordBoundary text (x + length (takeWhile uppercase_letter (drop x text)))")
  case True
  let ?k = "length (takeWhile uppercase_letter (drop x text))"
  from True have "0 < ?k" by linarith
  then have "x + ?k \<le> length text" by (rule run_bound)
  then have lt: "x + ?k < Suc (length text)" by simp
  from True have "flagged_run text x = (\<lambda>j. j = x + ?k)"
    by (auto simp: flagged_run_iff fun_eq_iff)
  then have f: "filter (flagged_run text x) [x..<Suc (length text)] = [x + ?k]"
    using lt by (simp only: filter_eq_upt[of x "x + ?k"] le_add1)
  have r: "rmatch pattern text x = [x + ?k]"
    using True by (simp add: rmatch_pattern)
  show ?thesis by (simp only: f r)
next
  case False
  then have "\<not> flagged_run text x j" for j
    by (auto simp: flagged_run_iff)
  then have f: "filter (flagged_run text x) [x..<Suc (length text)] = []"
    by (simp only: filter_empty_conv) blast
  have r: "rmatch pattern text x = []"
    using False by (simp add: rmatch_pattern)
  show ?thesis by (simp only: f r)
qed

lemma runs_from_beyond: "length text \<le> i \<Longrightarrow> runs_from text i = []"
  by (simp add: runs_from_def)

lemma runs_from_step:
  "i < length text \<Longrightarrow>
   runs_from text i = map (Pair i) (rmatch pattern text i) @ runs_from text (Suc i)"
  by (simp add: runs_from_def upt_conv_Cons filter_flagged_run del: upt_Suc)

lemma runs_from_skip:
  assumes "i \<le> e" "e \<le> length text"
    and "\<And>x. i \<le> x \<Longrightarrow> x < e \<Longrightarrow> rmatch pattern text x = []"
  shows "runs_from text i = runs_from text e"
  using assms
proof (induction "e - i" arbitrary: i)
  case 0
  then show ?case by simp
next
  case (Suc d)
  then have "i < e" by simp
  then have "runs_from text i = runs_from text (Suc i)"
    using Suc.prems by (simp add: runs_from_step)
  also have "\<dots> = runs_from text e"
    using Suc by (intro Suc.hyps) auto
  finally show ?case .
qed

lemma rmatch_inside_run:
  assumes "0 < m" "m < length (takeWhile uppercase_letter (drop x text))"
  shows "rmatch pattern text (x + m) = []"
  using no_boundary_inside[OF assms] by (simp add: rmatch_pattern)

lemma search_result:
  "(search pattern text i = None \<longrightarrow> runs_from text i = [])
   \<and> (\<forall>x e. search pattern text i = Some (x, e) \<longrightarrow>
          i \<le> x \<and> x \<le> e \<and> e \<le> length text
          \<and> runs_from text i = (x, e) # runs_from text e)"
proof (induction "Suc (length text) - i" arbitrary: i)
  case 0
  then have "length text < i" by simp
  then show ?case by (subst search.simps) (simp add: runs_from_beyond)
next
  case (Suc d)
  then have le: "i \<le> length text" by simp
  show ?case
  proof (cases "rmatch pattern text i")
    case Nil
    then have s: "search pattern text i = search pattern text (Suc i)"
      using le by (subst search.simps) simp
    have r: "runs_from text i = runs_from text (Suc i)"
    proof (cases "i < length text")
      case True
      then show ?thesis using Nil by (simp add: runs_from_step)
    next
      case False
      then show ?thesis by (simp add: runs_from_beyond)
    qed
    have "d = Suc (length text) - Suc i" using Suc.hyps(2) by simp
    from Suc.hyps(1)[OF this] show ?thesis unfolding s r by auto
  next
    case (Cons e es)
    let ?k = "length (takeWhile uppercase_letter (drop i text))"
    from Cons have c: "IsWordBoundary text i" "2 \<le> ?k" "e = i + ?k" "es = []"
      by (simp_all add: rmatch_pattern split: if_splits)
    from c have "0 < ?k" by linarith
    then have "i + ?k \<le> length text" "i < length text" by (rule run_bound)+
    with c have bounds: "i < length text" "e \<le> length text" "i \<le> e" by simp_all
    have s: "search pattern text i = Some (i, e)"
      using le Cons by (subst search.simps) simp
    have "runs_from text i = (i, e) # runs_from text (Suc i)"
      using bounds Cons c by (simp add: runs_from_step)
    also have "runs_from text (Suc i) = runs_from text e"
    proof (rule runs_from_skip)
      show "Suc i \<le> e" using c by simp
      show "e \<le> length text" by (rule bounds)
      fix x assume x: "Suc i \<le> x" "x < e"
      then have "0 < x - i" "x - i < ?k" using c by simp_all
      then have "rmatch pattern text (i + (x - i)) = []" by (rule rmatch_inside_run)
      then show "rmatch pattern text x = []" using x by simp
    qed
    finally show ?thesis using s bounds by simp
  qed
qed


lemma uppercase_runs_from: "uppercase_runs text = runs_from text 0"
  by (simp add: uppercase_runs_def runs_from_def)

lemma exec_None:
  "exec pattern lastIndex text = (None, l) \<Longrightarrow> runs_from text lastIndex = []"
  using search_result[of "text" lastIndex]
  by (auto simp: exec_def split: option.splits)

lemma exec_Some:
  assumes "exec pattern lastIndex text = (Some m, l)"
  shows "index m + length (match0 m) = l"
    and "match0 m = take (l - index m) (drop (index m) text)"
    and "runs_from text lastIndex = (index m, l) # runs_from text l"
proof -
  from assms obtain x where s: "search pattern text lastIndex = Some (x, l)"
    and m: "m = \<lparr>index = x, match0 = take (l - x) (drop x text)\<rparr>"
    by (auto simp: exec_def split: option.splits)
  from s search_result[of "text" lastIndex]
  have b: "x \<le> l" "l \<le> length text" "runs_from text lastIndex = (x, l) # runs_from text l"
    by auto
  from m b show "index m + length (match0 m) = l" by simp
  from m show "match0 m = take (l - index m) (drop (index m) text)" by simp
  from m b show "runs_from text lastIndex = (index m, l) # runs_from text l" by simp
qed

lemma make_diagnostic_expected:
  assumes "exec pattern lastIndex (getText textDocument) = (Some m, l)"
  shows "make_diagnostic textDocument related m
           = expected_diagnostic textDocument related (index m, l)"
  using exec_Some(1,2)[OF assms]
  by (simp add: make_diagnostic_def expected_diagnostic_def Let_def)

lemma validate_loop_runs:
  "validate_loop textDocument (Some st) related lastIndex problems ds =
     Inr (ds @ map (expected_diagnostic textDocument related)
                 (take (nat (maxNumberOfProblems st - problems))
                    (runs_from (getText textDocument) lastIndex)))"
proof (induction "nat (maxNumberOfProblems st - problems)" arbitrary: lastIndex problems ds)
  case 0
  then have le: "\<not> problems < maxNumberOfProblems st" by simp
  show ?case
    by (subst validate_loop.simps) (use le 0 in \<open>simp split: prod.splits option.splits\<close>)
next
  case (Suc n)
  then have lt: "problems < maxNumberOfProblems st" by linarith
  show ?case
  proof (cases "exec pattern lastIndex (getText textDocument)")
    case (Pair mo l)
    show ?thesis
    proof (cases mo)
      case None
      with Pair have "runs_from (getText textDocument) lastIndex = []"
        using exec_None by simp
      with Pair None show ?thesis
        by (subst validate_loop.simps) simp
    next
      case (Some m)
      with Pair have e: "exec pattern lastIndex (getText textDocument) = (Some m, l)" by simp
      have n: "n = nat (maxNumberOfProblems st - (problems + 1))"
        using Suc.hyps(2) by linarith
      have "validate_loop textDocument (Some st) related lastIndex problems ds
          = validate_loop textDocument (Some st) related l (problems + 1)
              (ds @ [make_diagnostic textDocument related m])"
        by (subst validate_loop.simps) (simp add: e lt)
      also have "\<dots> = Inr ((ds @ [make_diagnostic textDocument related m])
                     @ map (expected_diagnostic textDocument related)
                 (take (nat (maxNumberOfProblems st - (problems + 1)))
                    (runs_from (getText textDocument) l)))"
        by (rule Suc.hyps(1)[OF n])
      also have "\<dots> = Inr (ds @ map (expected_diagnostic textDocument related)
                 (take (nat (maxNumberOfProblems st - problems))
                    (runs_from (getText textDocument) lastIndex)))"
        using exec_Some(3)[OF e] make_diagnostic_expected[OF e] Suc.hyps(2)[symmetric] n
        by simp
      finally show ?thesis .
    qed
  qed
qed

lemma getDocumentSettings_flag:
  "hasDiagnosticRelatedInformationCapability (snd (getDocumentSettings getConfiguration s resource))
     = hasDiagnosticRelatedInformationCapability s"
  by (simp add: getDocumentSettings_def Let_def split: option.splits)

section \<open>Facts about the flagged runs and the settings\<close>

lemma uppercase_runs_set:
  "(i, j) \<in> set (uppercase_runs text) \<longleftrightarrow> flagged_run text i j"
proof -
  have "flagged_run text i j \<Longrightarrow> i < length text \<and> i \<le> j \<and> j < Suc (length text)"
    by (simp add: flagged_run_def)
  then show ?thesis
    by (force simp: uppercase_runs_def simp del: upt_Suc)
qed

lemma flagged_runs_disjoint:
  assumes "flagged_run text i j" "flagged_run text i' j'" "i < i'"
  shows "j \<le> i'"
proof (rule ccontr)
  assume "\<not> j \<le> i'"
  then have lt: "i' < j" by simp
  let ?k = "length (takeWhile uppercase_letter (drop i text))"
  from assms(1) have j: "j = i + ?k" by (simp add: flagged_run_iff)
  from assms(3) lt j have "0 < i' - i" "i' - i < ?k" by simp_all
  then have "\<not> IsWordBoundary text (i + (i' - i))" by (rule no_boundary_inside)
  moreover from assms(2) have "IsWordBoundary text i'" by (simp add: flagged_run_iff)
  ultimately show False using assms(3) by simp
qed

lemma runs_from_starts:
  "(x, e) \<in> set (runs_from text i) \<Longrightarrow> i \<le> x"
  by (auto simp: runs_from_def)

lemma uppercase_runs_ordered:
  "sorted_wrt (\<lambda>a b. snd a \<le> fst b) (runs_from text i)"
proof (induction "Suc (length text) - i" arbitrary: i rule: less_induct)
  case less
  show ?case
  proof (cases "search pattern text i")
    case None
    then show ?thesis using search_result[of "text" i] by simp
  next
    case (Some p)
    obtain x e where p: "p = (x, e)" by (cases p)
    with Some search_result[of "text" i]
    have r: "i \<le> x" "x \<le> e" "e \<le> length text" "runs_from text i = (x, e) # runs_from text e"
      by auto
    have "x < e"
    proof -
      from r(4) have "(x, e) \<in> set (runs_from text i)" by simp
      then have "flagged_run text x e" by (auto simp: runs_from_def simp del: upt_Suc)
      then show ?thesis by (simp add: flagged_run_def)
    qed
    with r have "Suc (length text) - e < Suc (length text) - i" by simp
    then have "sorted_wrt (\<lambda>a b. snd a \<le> fst b) (runs_from text e)" by (rule less)
    then show ?thesis using r(4) runs_from_starts[of _ _ "text" e] by auto
  qed
qed

lemma validate_loop_null_settings:
  "validate_loop textDocument None related lastIndex problems ds =
     (if runs_from (getText textDocument) lastIndex = [] then Inr ds else Inl TypeError)"
proof (cases "exec pattern lastIndex (getText textDocument)")
  case (Pair mo l)
  show ?thesis
  proof (cases mo)
    case None
    with Pair have "runs_from (getText textDocument) lastIndex = []"
      using exec_None by simp
    with Pair None show ?thesis by (subst validate_loop.simps) simp
  next
    case (Some m)
    with Pair have "runs_from (getText textDocument) lastIndex \<noteq> []"
      using exec_Some(3)[of lastIndex "getText textDocument" m l] by simp
    with Pair Some show ?thesis by (subst validate_loop.simps) simp
  qed
qed

lemma global_settings_fallback:
  "\<not> hasConfigurationCapability s \<Longrightarrow>
   onDidChangeConfiguration getConfiguration s
     \<lparr>change_settings = Some \<lparr>languageServerExample = None\<rparr>\<rparr> []
   = Inr ([], s\<lparr>globalSettings := defaultSettings\<rparr>)"
  by (simp add: onDidChangeConfiguration_def)

lemma global_settings_resolution:
  "\<not> hasConfigurationCapability s \<Longrightarrow>
   getDocumentSettings getConfiguration s resource = (Some (globalSettings s), s)"
  by (simp add: getDocumentSettings_def)

section \<open>The validator's diagnostics\<close>

text \<open>
  C1. For every document and every settings value the resolution returns, the validator
  publishes one diagnostic for each flagged run (a maximal run of two or more uppercase
  letters with a word boundary on each side), from left to right, and stops after
  \<open>maxNumberOfProblems\<close> of them: the published list is the image of the first
  \<open>maxNumberOfProblems\<close> flagged runs. Each diagnostic is \<open>expected_diagnostic\<close> of
  its run: severity Warning, the range from the run's start to its end, the message
  \<open><TOKEN> is all uppercase. Can you please fix that\<close>, the source \<open>ex\<close>.
\<close>

theorem validator_diagnostics:
  assumes "fst (getDocumentSettings getConfiguration s (uri textDocument)) = Some st"
  shows "fst (validateTaclDocument getConfiguration s textDocument) =
     Inr \<lparr>pub_uri = uri textDocument,
          diagnostics =
            map (expected_diagnostic textDocument (hasDiagnosticRelatedInformationCapability s))
              (take (nat (maxNumberOfProblems st)) (uppercase_runs (getText textDocument)))\<rparr>"
proof -
  obtain s' where g: "getDocumentSettings getConfiguration s (uri textDocument) = (Some st, s')"
    using assms by (cases "getDocumentSettings getConfiguration s (uri textDocument)") simp
  have "hasDiagnosticRelatedInformationCapability s' = hasDiagnosticRelatedInformationCapability s"
    using getDocumentSettings_flag[of getConfiguration s "uri textDocument"] g by simp
  then show ?thesis
    by (simp add: validateTaclDocument_def g validate_loop_runs uppercase_runs_from)
qed

theorem validator_diagnostics_witness:
  "fst (getDocumentSettings (\<lambda>u. None)
          (initial_state\<lparr>globalSettings := \<lparr>maxNumberOfProblems = 1\<rparr>\<rparr>) (js ''a.tacl''))
     = Some \<lparr>maxNumberOfProblems = 1\<rparr>
   \<and> fst (validateTaclDocument (\<lambda>u. None)
          (initial_state\<lparr>globalSettings := \<lparr>maxNumberOfProblems = 1\<rparr>\<rparr>)
          \<lparr>uri = js ''a.tacl'', getText = js ''AB CD'',
           positionAt = (\<lambda>n. \<lparr>line = 0, character = n\<rparr>)\<rparr>)
     = Inr \<lparr>pub_uri = js ''a.tacl'',
            diagnostics =
              [\<lparr>severity = Warning,
                drange = \<lparr>start = \<lparr>line = 0, character = 0\<rparr>,
                          end' = \<lparr>line = 0, character = 2\<rparr>\<rparr>,
                message = js ''AB is all uppercase. Can you please fix that'',
                source = js ''ex'',
                relatedInformation = None\<rparr>]\<rparr>"
proof -
  let ?s = "initial_state\<lparr>globalSettings := \<lparr>maxNumberOfProblems = 1\<rparr>\<rparr>"
  let ?d = "\<lparr>uri = js ''a.tacl'', getText = js ''AB CD'',
           positionAt = (\<lambda>n. \<lparr>line = 0, character = n\<rparr>)\<rparr>"
  have h: "fst (getDocumentSettings (\<lambda>u. None) ?s (uri ?d)) = Some \<lparr>maxNumberOfProblems = 1\<rparr>"
    by (simp add: getDocumentSettings_def initial_state_def)
  have runs: "uppercase_runs (js ''AB CD'') = [(0, 2), (3, 5)]"
    by code_simp
  have flag: "hasDiagnosticRelatedInformationCapability ?s = False"
    by (simp add: initial_state_def)
  have "fst (validateTaclDocument (\<lambda>u. None) ?s ?d) =
     Inr \<lparr>pub_uri = uri ?d,
          diagnostics = map (expected_diagnostic ?d False) (take (nat 1) [(0, 2), (3, 5)])\<rparr>"
    using validator_diagnostics[OF h] by (simp add: runs flag)
  then have "fst (validateTaclDocument (\<lambda>u. None) ?s ?d) =
     Inr \<lparr>pub_uri = js ''a.tacl'',
            diagnostics =
              [\<lparr>severity = Warning,
                drange = \<lparr>start = \<lparr>line = 0, character = 0\<rparr>,
                          end' = \<lparr>line = 0, character = 2\<rparr>\<rparr>,
                message = js ''AB is all uppercase. Can you please fix that'',
                source = js ''ex'',
                relatedInformation = None\<rparr>]\<rparr>"
    by (simp add: expected_diagnostic_def js_def)
  with h show ?thesis by simp
qed

text \<open>
  C3. From the server's initial state, whose settings are the default ones with the cap
  1000, the text \<open>The API returns OK\<close> gets exactly two diagnostics: the first for
  \<open>API\<close> at offsets 4 to 7, the second for \<open>OK\<close> at offsets 16 to 18, both with
  severity Warning and source \<open>ex\<close>.
\<close>

theorem api_ok_example:
  "\<exists>ds. fst (validateTaclDocument getConfiguration
               (initial_state\<lparr>hasDiagnosticRelatedInformationCapability := r\<rparr>)
               \<lparr>uri = u, getText = js ''The API returns OK'', positionAt = p\<rparr>)
           = Inr \<lparr>pub_uri = u, diagnostics = ds\<rparr>
      \<and> map (\<lambda>d. (severity d, drange d, message d, source d)) ds =
          [(Warning, \<lparr>start = p 4, end' = p 7\<rparr>,
            js ''API is all uppercase. Can you please fix that'', js ''ex''),
           (Warning, \<lparr>start = p 16, end' = p 18\<rparr>,
            js ''OK is all uppercase. Can you please fix that'', js ''ex'')]"
proof -
  have runs: "runs_from (js ''The API returns OK'') 0 = [(4, 7), (16, 18)]"
    by code_simp
  have g: "getDocumentSettings getConfiguration
             (initial_state\<lparr>hasDiagnosticRelatedInformationCapability := r\<rparr>) u
           = (Some defaultSettings, initial_state\<lparr>hasDiagnosticRelatedInformationCapability := r\<rparr>)"
    by (simp add: getDocumentSettings_def initial_state_def)
  have a: "fst (validateTaclDocument getConfiguration
               (initial_state\<lparr>hasDiagnosticRelatedInformationCapability := r\<rparr>)
               \<lparr>uri = u, getText = js ''The API returns OK'', positionAt = p\<rparr>)
        = Inr \<lparr>pub_uri = u,
               diagnostics =
                 map (expected_diagnostic
                        \<lparr>uri = u, getText = js ''The API returns OK'', positionAt = p\<rparr>
                        (hasDiagnosticRelatedInformationCapability
                           (initial_state\<lparr>hasDiagnosticRelatedInformationCapability := r\<rparr>)))
                   [(4, 7), (16, 18)]\<rparr>"
    (is "_ = Inr \<lparr>pub_uri = u, diagnostics = ?ds\<rparr>")
    by (simp add: validateTaclDocument_def g validate_loop_runs runs defaultSettings_def)
  have b: "map (\<lambda>d. (severity d, drange d, message d, source d)) ?ds =
          [(Warning, \<lparr>start = p 4, end' = p 7\<rparr>,
            js ''API is all uppercase. Can you please fix that'', js ''ex''),
           (Warning, \<lparr>start = p 16, end' = p 18\<rparr>,
            js ''OK is all uppercase. Can you please fix that'', js ''ex'')]"
    by (simp add: expected_diagnostic_def Let_def js_def)
  show ?thesis
    by (rule exI[of _ ?ds], rule conjI, rule a, rule b)
qed

text \<open>
  C4. Validating a document a second time, from the state the first validation left,
  publishes the same result as the first time: the same diagnostics in the same order.
  The settings of the second run are those of the first, read from the cache or from the
  global settings, whatever the client would reply to a new request.
\<close>

theorem validation_idempotent:
  "fst (validateTaclDocument getConfiguration'
          (snd (validateTaclDocument getConfiguration s textDocument)) textDocument)
   = fst (validateTaclDocument getConfiguration s textDocument)"
proof -
  have "getDocumentSettings getConfiguration'
          (snd (getDocumentSettings getConfiguration s (uri textDocument))) (uri textDocument)
        = getDocumentSettings getConfiguration s (uri textDocument)"
    by (simp add: getDocumentSettings_def Let_def split: option.splits)
  moreover obtain st s1 where g: "getDocumentSettings getConfiguration s (uri textDocument) = (st, s1)"
    by (cases "getDocumentSettings getConfiguration s (uri textDocument)")
  ultimately have g2: "getDocumentSettings getConfiguration' s1 (uri textDocument) = (st, s1)"
    by simp
  show ?thesis
    by (simp add: validateTaclDocument_def g g2 split: sum.splits)
qed

text \<open>
  C5. When the resolved settings have \<open>maxNumberOfProblems = 0\<close>, the validator publishes
  the empty list of diagnostics, whatever the text is.
\<close>

theorem zero_cap_no_diagnostics:
  assumes "fst (getDocumentSettings getConfiguration s (uri textDocument)) = Some st"
    and "maxNumberOfProblems st = 0"
  shows "fst (validateTaclDocument getConfiguration s textDocument)
           = Inr \<lparr>pub_uri = uri textDocument, diagnostics = []\<rparr>"
proof -
  obtain s' where g: "getDocumentSettings getConfiguration s (uri textDocument) = (Some st, s')"
    using assms(1) by (cases "getDocumentSettings getConfiguration s (uri textDocument)") simp
  show ?thesis
    by (simp add: validateTaclDocument_def g validate_loop_runs assms(2))
qed

theorem zero_cap_no_diagnostics_witness:
  "fst (getDocumentSettings (\<lambda>u. Some \<lparr>maxNumberOfProblems = 0\<rparr>)
          (initial_state\<lparr>hasConfigurationCapability := True\<rparr>) (js ''a.tacl''))
     = Some \<lparr>maxNumberOfProblems = 0\<rparr>
   \<and> maxNumberOfProblems \<lparr>maxNumberOfProblems = 0\<rparr> = 0
   \<and> fst (validateTaclDocument (\<lambda>u. Some \<lparr>maxNumberOfProblems = 0\<rparr>)
          (initial_state\<lparr>hasConfigurationCapability := True\<rparr>)
          \<lparr>uri = js ''a.tacl'', getText = js ''AB CD'',
           positionAt = (\<lambda>n. \<lparr>line = 0, character = n\<rparr>)\<rparr>)
     = Inr \<lparr>pub_uri = js ''a.tacl'', diagnostics = []\<rparr>"
proof -
  let ?c = "\<lambda>u::js_string. Some \<lparr>maxNumberOfProblems = 0\<rparr>"
  let ?s = "initial_state\<lparr>hasConfigurationCapability := True\<rparr>"
  let ?d = "\<lparr>uri = js ''a.tacl'', getText = js ''AB CD'',
           positionAt = (\<lambda>n. \<lparr>line = 0, character = n\<rparr>)\<rparr>"
  have h: "fst (getDocumentSettings ?c ?s (uri ?d)) = Some \<lparr>maxNumberOfProblems = 0\<rparr>"
    by (simp add: getDocumentSettings_def initial_state_def Let_def)
  have z: "maxNumberOfProblems \<lparr>maxNumberOfProblems = 0\<rparr> = 0"
    by simp
  show ?thesis
    using h zero_cap_no_diagnostics[OF h z] by simp
qed

section \<open>Settings resolution\<close>

text \<open>
  C7. The claim is that a settings resolution that yields no value makes the validator use
  the default cap 1000 and never fails the validation. The global path does this
  (\<open>global_settings_fallback\<close>, \<open>global_settings_resolution\<close>: a configuration change
  without a \<open>languageServerExample\<close> value installs \<open>defaultSettings\<close>). The
  per-document path does not: when the client supports \<open>workspace/configuration\<close> and
  replies \<open>null\<close>, the validator reads \<open>maxNumberOfProblems\<close> of \<open>null\<close> at the first
  match and throws. The theorem evaluates the validator on the text \<open>AB\<close> in that state.
\<close>

theorem null_settings_type_error:
  "fst (validateTaclDocument (\<lambda>u. None)
          (initial_state\<lparr>hasConfigurationCapability := True\<rparr>)
          \<lparr>uri = js ''a.tacl'', getText = js ''AB'',
           positionAt = (\<lambda>n. \<lparr>line = 0, character = n\<rparr>)\<rparr>)
   = Inl TypeError"
proof -
  have runs: "runs_from (js ''AB'') 0 = [(0, 2)]"
    by code_simp
  obtain s' where g: "getDocumentSettings (\<lambda>u. None)
          (initial_state\<lparr>hasConfigurationCapability := True\<rparr>) (js ''a.tacl'') = (None, s')"
    by (simp add: getDocumentSettings_def initial_state_def Let_def)
  show ?thesis
    by (simp add: validateTaclDocument_def g validate_loop_null_settings runs)
qed

section \<open>Completion\<close>

lemma array_get_first: "xs \<noteq> [] \<Longrightarrow> array_get xs 0 = Some (xs ! 0)"
  by (simp add: array_get_def)

lemma array_get_beyond: "int (length xs) \<le> i \<Longrightarrow> array_get xs i = None"
  by (simp add: array_get_def)

text \<open>
  C8. \<open>onCompletion\<close> does not depend on its argument. Its list has the data ids 1 to 29
  in this order, no item has a detail or a documentation yet, and the label \<open>empty\<close> is
  kept twice, at the ids 21 and 26.
\<close>

theorem completion_list_fixed:
  "onCompletion p = onCompletion q
   \<and> map data (onCompletion p) = [1..29]
   \<and> map (\<lambda>it. (detail it, documentation it)) (onCompletion p) = replicate 29 (None, None)
   \<and> filter (\<lambda>it. label it = js ''empty'') (onCompletion p)
       = [item (js ''empty'') Variable 21, item (js ''empty'') Variable 26]"
proof (intro conjI)
  show "onCompletion p = onCompletion q" by (simp add: onCompletion_def)
  have "[1..29] = [1,2,3,4,5,6,7,8,9,10,11,12,13,14,15,16,17,18,19,20,21,22,23,24,25,26,27,28,29::int]"
    by code_simp
  then show "map data (onCompletion p) = [1..29]"
    by (simp add: onCompletion_def item_def)
  show "map (\<lambda>it. (detail it, documentation it)) (onCompletion p) = replicate 29 (None, None)"
    by (simp add: onCompletion_def item_def numeral_eq_Suc)
  show "filter (\<lambda>it. label it = js ''empty'') (onCompletion p)
       = [item (js ''empty'') Variable 21, item (js ''empty'') Variable 26]"
    by (simp add: onCompletion_def item_def js_def)
qed

text \<open>
  C2. On a non-empty keyword table, resolving an item with \<open>data = 1\<close> returns the item with
  the detail and the documentation of the table's entry at index 0. Resolving an item
  whose data id is greater than the table's size fails with the TypeError, and no resolved
  item is ever returned without a detail or a documentation.
\<close>

theorem resolve_first_and_beyond:
  "(keywordDes \<noteq> [] \<and> data it = 1 \<longrightarrow>
      onCompletionResolve keywordDes it =
        Inr (it\<lparr>detail := Some (kw_detail (keywordDes ! 0)),
                documentation := Some (kw_documentation (keywordDes ! 0))\<rparr>))
   \<and> (int (length keywordDes) < data it' \<longrightarrow>
        onCompletionResolve keywordDes it' = Inl TypeError)
   \<and> (\<forall>r. onCompletionResolve keywordDes it'' = Inr r \<longrightarrow>
          detail r \<noteq> None \<and> documentation r \<noteq> None)"
proof (intro conjI impI allI)
  assume "keywordDes \<noteq> [] \<and> data it = 1"
  then show "onCompletionResolve keywordDes it =
        Inr (it\<lparr>detail := Some (kw_detail (keywordDes ! 0)),
                documentation := Some (kw_documentation (keywordDes ! 0))\<rparr>)"
    by (simp add: onCompletionResolve_def array_get_first)
next
  assume "int (length keywordDes) < data it'"
  then have "array_get keywordDes (data it' - 1) = None"
    by (intro array_get_beyond) simp
  then show "onCompletionResolve keywordDes it' = Inl TypeError"
    by (simp add: onCompletionResolve_def)
next
  fix r assume "onCompletionResolve keywordDes it'' = Inr r"
  then show "detail r \<noteq> None" "documentation r \<noteq> None"
    by (auto simp: onCompletionResolve_def Let_def split: option.splits)
qed

theorem resolve_first_and_beyond_witness:
  "onCompletionResolve
     [\<lparr>kw_label = js ''Given'', kw_detail = js ''step'', kw_documentation = js ''A precondition''\<rparr>]
     (item (js ''Given'') Property 1)
   = Inr \<lparr>label = js ''Given'', kind = Property, data = 1,
          detail = Some (js ''step''), documentation = Some (js ''A precondition'')\<rparr>
   \<and> onCompletionResolve
     [\<lparr>kw_label = js ''Given'', kw_detail = js ''step'', kw_documentation = js ''A precondition''\<rparr>]
     (item (js ''actions'') Property 2)
   = Inl TypeError"
proof -
  let ?t = "[\<lparr>kw_label = js ''Given'', kw_detail = js ''step'',
              kw_documentation = js ''A precondition''\<rparr>]"
  have a: "?t \<noteq> [] \<and> data (item (js ''Given'') Property 1) = 1"
    by (simp add: item_def)
  have b: "int (length ?t) < data (item (js ''actions'') Property 2)"
    by (simp add: item_def)
  from resolve_first_and_beyond[of ?t "item (js ''Given'') Property 1"
         "item (js ''actions'') Property 2" "item (js ''Given'') Property 1"] a b
  show ?thesis by (simp add: item_def)
qed

text \<open>
  C9. Resolving changes the detail and the documentation only: the label, the kind and the
  data of a returned item are those of the input item.
\<close>

theorem resolve_frame:
  "onCompletionResolve keywordDes it = Inr it' \<Longrightarrow>
     label it' = label it \<and> kind it' = kind it \<and> data it' = data it"
  by (auto simp: onCompletionResolve_def Let_def split: option.splits)

theorem resolve_frame_witness:
  "onCompletionResolve
     [\<lparr>kw_label = js ''Given'', kw_detail = js ''step'', kw_documentation = js ''A precondition''\<rparr>]
     (item (js ''Given'') Property 1)
   = Inr \<lparr>label = js ''Given'', kind = Property, data = 1,
          detail = Some (js ''step''), documentation = Some (js ''A precondition'')\<rparr>
   \<and> label \<lparr>label = js ''Given'', kind = Property, data = 1,
          detail = Some (js ''step''), documentation = Some (js ''A precondition'')\<rparr>
       = label (item (js ''Given'') Property 1)
   \<and> kind \<lparr>label = js ''Given'', kind = Property, data = 1,
          detail = Some (js ''step''), documentation = Some (js ''A precondition'')\<rparr>
       = kind (item (js ''Given'') Property 1)
   \<and> data \<lparr>label = js ''Given'', kind = Property, data = 1,
          detail = Some (js ''step''), documentation = Some (js ''A precondition'')\<rparr>
       = data (item (js ''Given'') Property 1)"
proof -
  have h: "onCompletionResolve
     [\<lparr>kw_label = js ''Given'', kw_detail = js ''step'', kw_documentation = js ''A precondition''\<rparr>]
     (item (js ''Given'') Property 1)
   = Inr \<lparr>label = js ''Given'', kind = Property, data = 1,
          detail = Some (js ''step''), documentation = Some (js ''A precondition'')\<rparr>"
    by (simp add: onCompletionResolve_def array_get_def item_def)
  from h resolve_frame[OF h] show ?thesis by simp
qed

section \<open>Hover\<close>

lemma scan_table_last:
  "scan_table hoverDes w rc =
     (if filter (\<lambda>e. hv_label e = w) hoverDes = [] then rc
      else hv_documentation (last (filter (\<lambda>e. hv_label e = w) hoverDes)))"
  unfolding scan_table_def
  by (induction hoverDes arbitrary: rc) simp_all

lemma filter_distinct_label:
  "distinct (map f xs) \<Longrightarrow> e \<in> set xs \<Longrightarrow> filter (\<lambda>x. f x = f e) xs = [e]"
proof (induction xs)
  case Nil
  then show ?case by simp
next
  case (Cons x xs)
  show ?case
  proof (cases "x = e")
    case True
    with Cons.prems have "filter (\<lambda>x. f x = f e) xs = []"
      by (auto simp: filter_empty_conv image_iff)
    with True show ?thesis by simp
  next
    case False
    with Cons.prems have "e \<in> set xs" "f x \<noteq> f e" by auto
    with Cons show ?thesis by simp
  qed
qed

lemma provideHover_contents:
  "fst (provideHover dirname hoverDes document pos) =
     \<lparr>contents = [scan_table hoverDes
                     (getTextIn document (getWordRangeAtPosition document pos)) (js [])]\<rparr>"
  by (simp add: provideHover_def Let_def)

text \<open>
  C6. The word is the text the document returns for the word range at the position. When
  an entry of the hover table has the word as its label (compared exactly, code unit by
  code unit), the hover's content is the documentation of an entry with that label, and of
  that very entry when the labels of the table are distinct. When no entry has the word as
  its label, the hover's content is the empty string; \<open>provideHover\<close> has no failing branch.
\<close>

theorem hover_hit_and_miss:
  "(e \<in> set hoverDes \<and> hv_label e = getTextIn document (getWordRangeAtPosition document pos) \<longrightarrow>
      (\<exists>e'. e' \<in> set hoverDes \<and> hv_label e' = hv_label e
          \<and> fst (provideHover dirname hoverDes document pos)
              = \<lparr>contents = [hv_documentation e']\<rparr>)
      \<and> (distinct (map hv_label hoverDes) \<longrightarrow>
           fst (provideHover dirname hoverDes document pos)
             = \<lparr>contents = [hv_documentation e]\<rparr>))
   \<and> (getTextIn document' (getWordRangeAtPosition document' pos') \<notin> hv_label ` set hoverDes \<longrightarrow>
        fst (provideHover dirname hoverDes document' pos') = \<lparr>contents = [js []]\<rparr>)"
proof (intro conjI impI)
  let ?w = "getTextIn document (getWordRangeAtPosition document pos)"
  let ?ms = "filter (\<lambda>x. hv_label x = ?w) hoverDes"
  assume h: "e \<in> set hoverDes \<and> hv_label e = ?w"
  then have ne: "?ms \<noteq> []" by (auto simp: filter_empty_conv)
  then have "last ?ms \<in> set ?ms" by (rule last_in_set)
  then have l: "last ?ms \<in> set hoverDes" "hv_label (last ?ms) = hv_label e"
    using h by simp_all
  have r: "fst (provideHover dirname hoverDes document pos)
             = \<lparr>contents = [hv_documentation (last ?ms)]\<rparr>"
    using ne by (simp add: provideHover_contents scan_table_last)
  from l r show "\<exists>e'. e' \<in> set hoverDes \<and> hv_label e' = hv_label e
          \<and> fst (provideHover dirname hoverDes document pos)
              = \<lparr>contents = [hv_documentation e']\<rparr>"
    by blast
  assume "distinct (map hv_label hoverDes)"
  then have "filter (\<lambda>x. hv_label x = hv_label e) hoverDes = [e]"
    using h by (intro filter_distinct_label) simp_all
  then have "?ms = [e]" using h by simp
  with r show "fst (provideHover dirname hoverDes document pos)
             = \<lparr>contents = [hv_documentation e]\<rparr>"
    by simp
next
  let ?w = "getTextIn document' (getWordRangeAtPosition document' pos')"
  assume "?w \<notin> hv_label ` set hoverDes"
  then have "filter (\<lambda>x. hv_label x = ?w) hoverDes = []"
    by (auto simp: filter_empty_conv image_iff)
  then show "fst (provideHover dirname hoverDes document' pos') = \<lparr>contents = [js []]\<rparr>"
    by (simp add: provideHover_contents scan_table_last)
qed

theorem hover_hit_and_miss_witness:
  "fst (provideHover (\<lambda>p. js ''/project/elements'')
          [\<lparr>hv_label = js ''hidden'', hv_documentation = js ''The element is hidden''\<rparr>,
           \<lparr>hv_label = js ''visible'', hv_documentation = js ''The element is visible''\<rparr>]
          \<lparr>fsPath = js ''/project/elements/a.tacl'',
           getWordRangeAtPosition = (\<lambda>p. Some \<lparr>start = p, end' = p\<rparr>),
           getTextIn = (\<lambda>r. js ''visible'')\<rparr>
          \<lparr>line = 0, character = 3\<rparr>)
     = \<lparr>contents = [js ''The element is visible'']\<rparr>
   \<and> fst (provideHover (\<lambda>p. js ''/project/elements'')
          [\<lparr>hv_label = js ''hidden'', hv_documentation = js ''The element is hidden''\<rparr>,
           \<lparr>hv_label = js ''visible'', hv_documentation = js ''The element is visible''\<rparr>]
          \<lparr>fsPath = js ''/project/elements/a.tacl'',
           getWordRangeAtPosition = (\<lambda>p. Some \<lparr>start = p, end' = p\<rparr>),
           getTextIn = (\<lambda>r. js ''zzzNotAWord'')\<rparr>
          \<lparr>line = 0, character = 3\<rparr>)
     = \<lparr>contents = [js []]\<rparr>"
proof -
  let ?t = "[\<lparr>hv_label = js ''hidden'', hv_documentation = js ''The element is hidden''\<rparr>,
           \<lparr>hv_label = js ''visible'', hv_documentation = js ''The element is visible''\<rparr>]"
  let ?e = "\<lparr>hv_label = js ''visible'', hv_documentation = js ''The element is visible''\<rparr>"
  let ?d = "\<lparr>fsPath = js ''/project/elements/a.tacl'',
           getWordRangeAtPosition = (\<lambda>p. Some \<lparr>start = p, end' = p\<rparr>),
           getTextIn = (\<lambda>r. js ''visible'')\<rparr>"
  let ?d' = "\<lparr>fsPath = js ''/project/elements/a.tacl'',
           getWordRangeAtPosition = (\<lambda>p. Some \<lparr>start = p, end' = p\<rparr>),
           getTextIn = (\<lambda>r. js ''zzzNotAWord'')\<rparr>"
  let ?p = "\<lparr>line = 0, character = 3\<rparr>"
  have a: "?e \<in> set ?t \<and> hv_label ?e = getTextIn ?d (getWordRangeAtPosition ?d ?p)"
    by simp
  have b: "distinct (map hv_label ?t)"
    by (simp add: js_def)
  have c: "getTextIn ?d' (getWordRangeAtPosition ?d' ?p) \<notin> hv_label ` set ?t"
    by (simp add: js_def)
  from hover_hit_and_miss[of ?e ?t ?d ?p "\<lambda>p. js ''/project/elements''" ?d' ?p] a b c
  show ?thesis by simp
qed

text \<open>
  C10. When more than one entry of the hover table has the word as its label, the hover's
  content is the documentation of the last of them in table order.
\<close>

theorem hover_last_match:
  "1 < length (filter (\<lambda>e. hv_label e = getTextIn document (getWordRangeAtPosition document pos))
                hoverDes) \<Longrightarrow>
   fst (provideHover dirname hoverDes document pos) =
     \<lparr>contents =
        [hv_documentation
           (last (filter (\<lambda>e. hv_label e = getTextIn document (getWordRangeAtPosition document pos))
                   hoverDes))]\<rparr>"
proof -
  assume "1 < length (filter (\<lambda>e. hv_label e = getTextIn document (getWordRangeAtPosition document pos))
                hoverDes)"
  then have "filter (\<lambda>e. hv_label e = getTextIn document (getWordRangeAtPosition document pos))
                hoverDes \<noteq> []"
    by auto
  then show ?thesis
    by (simp add: provideHover_contents scan_table_last)
qed

theorem hover_last_match_witness:
  "1 < length (filter (\<lambda>e. hv_label e = js ''empty'')
          [\<lparr>hv_label = js ''empty'', hv_documentation = js ''first''\<rparr>,
           \<lparr>hv_label = js ''title'', hv_documentation = js ''second''\<rparr>,
           \<lparr>hv_label = js ''empty'', hv_documentation = js ''third''\<rparr>])
   \<and> fst (provideHover (\<lambda>p. js ''/project/steps'')
          [\<lparr>hv_label = js ''empty'', hv_documentation = js ''first''\<rparr>,
           \<lparr>hv_label = js ''title'', hv_documentation = js ''second''\<rparr>,
           \<lparr>hv_label = js ''empty'', hv_documentation = js ''third''\<rparr>]
          \<lparr>fsPath = js ''/project/steps/a.tacl'',
           getWordRangeAtPosition = (\<lambda>p. None),
           getTextIn = (\<lambda>r. js ''empty'')\<rparr>
          \<lparr>line = 2, character = 0\<rparr>)
     = \<lparr>contents = [js ''third'']\<rparr>"
proof -
  let ?t = "[\<lparr>hv_label = js ''empty'', hv_documentation = js ''first''\<rparr>,
           \<lparr>hv_label = js ''title'', hv_documentation = js ''second''\<rparr>,
           \<lparr>hv_label = js ''empty'', hv_documentation = js ''third''\<rparr>]"
  let ?d = "\<lparr>fsPath = js ''/project/steps/a.tacl'',
           getWordRangeAtPosition = (\<lambda>p. None),
           getTextIn = (\<lambda>r. js ''empty'')\<rparr>"
  let ?p = "\<lparr>line = 2, character = 0\<rparr>"
  have f: "filter (\<lambda>e. hv_label e = js ''empty'') ?t
             = [\<lparr>hv_label = js ''empty'', hv_documentation = js ''first''\<rparr>,
                \<lparr>hv_label = js ''empty'', hv_documentation = js ''third''\<rparr>]"
    by (simp add: js_def)
  have h: "1 < length (filter (\<lambda>e. hv_label e = getTextIn ?d (getWordRangeAtPosition ?d ?p)) ?t)"
    using f by simp
  from hover_last_match[OF h, of "\<lambda>p. js ''/project/steps''"] f h
  show ?thesis by simp
qed

end
